theory Spec2Isabelle
  imports Complex_Main
begin

section \<open>Conway's Game of Life: the simulation state of \<open>main.py\<close>\<close>

text \<open>
  The program keeps one square numpy array of integers, \<open>self.grid\<close>, shared between
  the \<open>GameOfLife\<close> object and its \<open>GridWidget\<close>, a generation counter and the list
  \<open>live_history\<close>. The Qt widgets, the timer and the drawing calls do not change that
  state and are left out; what \<open>update_plot\<close> hands to the axes is kept, since it is
  the only place where the occupancy and growth series exist.
\<close>

subsection \<open>Arrays\<close>

text \<open>
  A two-dimensional array is the list of its rows. Its cells are numpy \<open>int64\<close>; every
  array the program builds holds only 0 and 1, and every sum it takes is bounded by the
  number of cells, so the cells are modelled as unbounded integers.
\<close>

type_synonym ndarray = "int list list"

datatype py_error = ValueError | IndexError | ZeroDivisionError

definition shape :: "ndarray \<Rightarrow> nat \<times> nat" where
  "shape a = (length a, case a of [] \<Rightarrow> 0 | r # _ \<Rightarrow> length r)"

text \<open>\<open>np.roll(a, k)\<close> on one axis: the element at index \<open>i\<close> moves to \<open>(i + k) mod n\<close>.\<close>

definition roll :: "int \<Rightarrow> 'a list \<Rightarrow> 'a list" where
  "roll k xs = map (\<lambda>i. xs ! nat ((int i - k) mod int (length xs))) [0..<length xs]"

definition roll_axis0 :: "int \<Rightarrow> ndarray \<Rightarrow> ndarray" where
  "roll_axis0 k a = roll k a"

definition roll_axis1 :: "int \<Rightarrow> ndarray \<Rightarrow> ndarray" where
  "roll_axis1 k a = map (roll k) a"

definition arr_add :: "ndarray \<Rightarrow> ndarray \<Rightarrow> ndarray" where
  "arr_add a b = map2 (map2 (+)) a b"

definition scalar_add :: "int \<Rightarrow> ndarray \<Rightarrow> ndarray" where
  "scalar_add c a = map (map ((+) c)) a"

text \<open>
  Python's \<open>sum\<close> over arrays starts from the integer 0 and adds the arrays from left to
  right. The program only ever sums eight arrays; the empty case is not reached.
\<close>

fun py_sum :: "ndarray list \<Rightarrow> ndarray" where
  "py_sum [] = []"
| "py_sum (a # as) = foldl arr_add (scalar_add 0 a) as"

text \<open>\<open>np.sum(a)\<close>: the sum of all cells.\<close>

definition np_sum :: "ndarray \<Rightarrow> int" where
  "np_sum a = sum_list (map sum_list a)"

text \<open>
  \<open>dst[:] = src\<close> and \<open>dst[:, :] = src\<close> write into the existing array: the source
  is broadcast to the shape of the destination, and numpy raises \<open>ValueError\<close> when an
  axis of the source is neither 1 nor the destination's.
\<close>

definition broadcast_to :: "nat \<times> nat \<Rightarrow> ndarray \<Rightarrow> py_error + ndarray" where
  "broadcast_to sh src =
     (case sh of (h, w) \<Rightarrow> case shape src of (h', w') \<Rightarrow>
        if (h' = h \<or> h' = 1) \<and> (w' = w \<or> w' = 1)
        then Inr (map (\<lambda>y. map (\<lambda>x. src ! (if h' = 1 then 0 else y) ! (if w' = 1 then 0 else x))
                              [0..<w]) [0..<h])
        else Inl ValueError)"

definition full :: "nat \<times> nat \<Rightarrow> int \<Rightarrow> ndarray" where
  "full sh c = (case sh of (h, w) \<Rightarrow> replicate h (replicate w c))"

text \<open>numpy indexing along one axis of length \<open>n\<close>: negative indices count from the end.\<close>

definition np_index :: "nat \<Rightarrow> int \<Rightarrow> py_error + nat" where
  "np_index n i =
     (if - int n \<le> i \<and> i < int n then Inr (nat (if i < 0 then i + int n else i))
      else Inl IndexError)"

subsection \<open>Floating point\<close>

text \<open>
  The occupancy values are numpy \<open>float64\<close>. The rounding of the format is a parameter
  \<open>fl\<close> of the model (a function from the exact result to the stored one), so that
  nothing proved below depends on a particular rounding; division by zero gives numpy's
  \<open>nan\<close> and \<open>inf\<close>, not an exception.
\<close>

datatype float64 = Finite real | PosInf | NegInf | NaN

definition true_divide :: "(real \<Rightarrow> real) \<Rightarrow> int \<Rightarrow> int \<Rightarrow> float64" where
  "true_divide fl a b =
     (let x = fl (of_int a); y = fl (of_int b)
      in if y = 0 then (if x = 0 then NaN else if 0 < x then PosInf else NegInf)
         else Finite (fl (x / y)))"

fun fmul :: "(real \<Rightarrow> real) \<Rightarrow> float64 \<Rightarrow> int \<Rightarrow> float64" where
  "fmul fl (Finite x) c = Finite (fl (x * fl (of_int c)))"
| "fmul fl PosInf c = (if 0 < c then PosInf else if c < 0 then NegInf else NaN)"
| "fmul fl NegInf c = (if 0 < c then NegInf else if c < 0 then PosInf else NaN)"
| "fmul fl NaN c = NaN"

subsection \<open>The objects\<close>

type_synonym addr = nat

record GridWidget =
  w_grid :: addr
  w_cell_size :: int
  x_offset :: int
  y_offset :: int

text \<open>The four lists handed to the axes by the last \<open>update_plot\<close>.\<close>

record plotted =
  generations :: "int list"
  live :: "int list"
  occupancy :: "float64 list"
  growth :: "int list"

text \<open>
  \<open>heap\<close> holds the arrays; \<open>grid\<close> and the widget's \<open>w_grid\<close> are references into
  it, so that writing into the array is told apart from rebinding the attribute.
\<close>

record GameOfLife =
  heap :: "addr \<Rightarrow> ndarray"
  grid_size :: int
  cell_size :: int
  grid :: addr
  generation :: int
  live_history :: "int list"
  grid_widget :: GridWidget
  ax :: "plotted option"

definition the_grid :: "GameOfLife \<Rightarrow> ndarray" where
  "the_grid s = heap s (grid s)"

text \<open>
  \<open>(np.random.rand(n, n) < 0.2).astype(int)\<close>, with \<open>rand y x\<close> the number drawn for
  the cell in row \<open>y\<close> and column \<open>x\<close>. A negative dimension raises \<open>ValueError\<close>.
\<close>

definition random_grid :: "(nat \<Rightarrow> nat \<Rightarrow> real) \<Rightarrow> int \<Rightarrow> py_error + ndarray" where
  "random_grid rand n =
     (if n < 0 then Inl ValueError
      else Inr (map (\<lambda>y. map (\<lambda>x. if rand y x < 0.2 then 1 else 0) [0..<nat n]) [0..<nat n]))"

text \<open>\<open>GameOfLife.__init__\<close>: the new array is stored at address 0.\<close>

definition init :: "(nat \<Rightarrow> nat \<Rightarrow> real) \<Rightarrow> int \<Rightarrow> int \<Rightarrow> py_error + GameOfLife" where
  "init rand gsize csize =
     (case random_grid rand gsize of
        Inl e \<Rightarrow> Inl e
      | Inr g \<Rightarrow> Inr \<lparr> heap = (\<lambda>_. [])(0 := g), grid_size = gsize, cell_size = csize,
                       grid = 0, generation = 0, live_history = [],
                       grid_widget = \<lparr> w_grid = 0, w_cell_size = csize,
                                       x_offset = 20, y_offset = 60 \<rparr>,
                       ax = None \<rparr>)"

subsection \<open>\<open>update_plot\<close>\<close>

definition occupancy_of :: "(real \<Rightarrow> real) \<Rightarrow> int \<Rightarrow> int list \<Rightarrow> float64 list" where
  "occupancy_of fl gsize lh = map (\<lambda>v. fmul fl (true_divide fl v (gsize ^ 2)) 100) lh"

definition growth_of :: "int list \<Rightarrow> int list" where
  "growth_of lh = [0] @ map (\<lambda>i. lh ! i - lh ! (i - 1)) [1..<length lh]"

text \<open>
  \<open>ax.plot(x, y)\<close> raises \<open>ValueError\<close> when \<open>x\<close> and \<open>y\<close> differ in length; the
  three calls are made in the order live cells, occupancy, growth.
\<close>

definition update_plot :: "(real \<Rightarrow> real) \<Rightarrow> GameOfLife \<Rightarrow> py_error + GameOfLife" where
  "update_plot fl s =
     (let gen = generation s + 1;
          live_cells = np_sum (the_grid s);
          lh = live_history s @ [live_cells];
          gens = map int [1..<length lh + 1];
          occ = occupancy_of fl (grid_size s) lh;
          gro = growth_of lh
      in if length gens = length lh \<and> length gens = length occ \<and> length gens = length gro
         then Inr (s\<lparr> generation := gen, live_history := lh,
                      ax := Some \<lparr> generations = gens, live = lh,
                                   occupancy = occ, growth = gro \<rparr> \<rparr>)
         else Inl ValueError)"

subsection \<open>\<open>update_state\<close>\<close>

definition shifts :: "(int \<times> int) list" where
  "shifts = [(i, j). i \<leftarrow> [-1, 0, 1], j \<leftarrow> [-1, 0, 1], i \<noteq> 0 \<or> j \<noteq> 0]"

definition neighbors :: "ndarray \<Rightarrow> ndarray" where
  "neighbors g = py_sum (map (\<lambda>(i, j). roll_axis1 j (roll_axis0 i g)) shifts)"

definition rule :: "int \<Rightarrow> int \<Rightarrow> int" where
  "rule c n = (if (c = 1 \<and> (n = 2 \<or> n = 3)) \<or> (c = 0 \<and> n = 3) then 1 else 0)"

definition new_grid :: "ndarray \<Rightarrow> ndarray" where
  "new_grid g = map2 (map2 rule) g (neighbors g)"

definition update_state :: "(real \<Rightarrow> real) \<Rightarrow> GameOfLife \<Rightarrow> py_error + GameOfLife" where
  "update_state fl s =
     (case broadcast_to (shape (the_grid s)) (new_grid (the_grid s)) of
        Inl e \<Rightarrow> Inl e
      | Inr g' \<Rightarrow> update_plot fl (s\<lparr> heap := (heap s)(grid s := g') \<rparr>))"

subsection \<open>\<open>clear_grid\<close>, \<open>randomize_grid\<close>, \<open>mousePressEvent\<close>\<close>

definition clear_grid :: "(real \<Rightarrow> real) \<Rightarrow> GameOfLife \<Rightarrow> py_error + GameOfLife" where
  "clear_grid fl s =
     update_plot fl (s\<lparr> heap := (heap s)(grid s := full (shape (the_grid s)) 0),
                        live_history := [], generation := 0 \<rparr>)"

definition randomize_grid ::
    "(real \<Rightarrow> real) \<Rightarrow> (nat \<Rightarrow> nat \<Rightarrow> real) \<Rightarrow> GameOfLife \<Rightarrow> py_error + GameOfLife" where
  "randomize_grid fl rand s =
     (case random_grid rand (grid_size s) of
        Inl e \<Rightarrow> Inl e
      | Inr r \<Rightarrow>
          (case broadcast_to (shape (the_grid s)) r of
             Inl e \<Rightarrow> Inl e
           | Inr g' \<Rightarrow> update_plot fl (s\<lparr> heap := (heap s)(grid s := g'),
                                            live_history := [], generation := 0 \<rparr>)))"

text \<open>
  The event is the pair of pixel coordinates \<open>(event.x(), event.y())\<close>. \<open>//\<close> is floor
  division, as \<open>div\<close> on \<open>int\<close> is, and raises on a zero divisor.
\<close>

definition cell_of :: "GameOfLife \<Rightarrow> int \<times> int \<Rightarrow> py_error + int \<times> int" where
  "cell_of s ev =
     (if cell_size s = 0 then Inl ZeroDivisionError
      else Inr ((fst ev - x_offset (grid_widget s)) div cell_size s,
                (snd ev - y_offset (grid_widget s)) div cell_size s))"

definition mousePressEvent :: "int \<times> int \<Rightarrow> GameOfLife \<Rightarrow> py_error + GameOfLife" where
  "mousePressEvent ev s =
     (case cell_of s ev of
        Inl e \<Rightarrow> Inl e
      | Inr (x, y) \<Rightarrow>
          if 0 \<le> x \<and> x < grid_size s \<and> 0 \<le> y \<and> y < grid_size s then
            (let g = the_grid s in
             case np_index (fst (shape g)) y of
               Inl e \<Rightarrow> Inl e
             | Inr r \<Rightarrow>
                (case np_index (snd (shape g)) x of
                   Inl e \<Rightarrow> Inl e
                 | Inr c \<Rightarrow>
                     Inr (s\<lparr> heap := (heap s)(grid s := g[r := (g ! r)[c := 1 - g ! r ! c]]) \<rparr>)))
          else Inr s)"

subsection \<open>Well-formed states\<close>

text \<open>
  A grid of height \<open>h\<close> and width \<open>w\<close>: \<open>h\<close> rows of \<open>w\<close> cells, each 0 or 1.
\<close>

definition is_grid :: "nat \<Rightarrow> nat \<Rightarrow> ndarray \<Rightarrow> bool" where
  "is_grid h w g \<longleftrightarrow> length g = h \<and> (\<forall>r \<in> set g. length r = w \<and> (\<forall>c \<in> set r. c = 0 \<or> c = 1))"


definition rect :: "nat \<Rightarrow> nat \<Rightarrow> 'a list list \<Rightarrow> bool" where
  "rect h w a \<longleftrightarrow> length a = h \<and> (\<forall>r \<in> set a. length r = w)"

text \<open>
  Every state the program can be in has \<open>grid_size\<close> rows of \<open>grid_size\<close> cells in the
  array, and the widget draws that same array.
\<close>

definition wf :: "GameOfLife \<Rightarrow> bool" where
  "wf s \<longleftrightarrow> 0 \<le> grid_size s \<and> is_grid (nat (grid_size s)) (nat (grid_size s)) (the_grid s)
     \<and> w_grid (grid_widget s) = grid s"

subsection \<open>The neighbour count as the specification words it\<close>

definition height :: "ndarray \<Rightarrow> nat" where
  "height g = fst (shape g)"

definition width :: "ndarray \<Rightarrow> nat" where
  "width g = snd (shape g)"

text \<open>
  The sum of the cells at \<open>(x + dx, y + dy)\<close> for \<open>dx, dy\<close> in \<open>{-1, 0, 1}\<close>, without
  \<open>(0, 0)\<close>, the coordinates taken modulo the width and the height.
\<close>

definition neighbor_count :: "ndarray \<Rightarrow> nat \<Rightarrow> nat \<Rightarrow> int" where
  "neighbor_count g x y =
     (\<Sum>(dx, dy)\<leftarrow>[(dx, dy). dx \<leftarrow> [-1, 0, 1], dy \<leftarrow> [-1, 0, 1], (dx, dy) \<noteq> (0, 0)].
        g ! nat ((int y + dy) mod int (height g)) ! nat ((int x + dx) mod int (width g)))"

subsection \<open>A sample state\<close>

text \<open>A horizontal blinker in the middle of a 5 by 5 grid, with the default offsets.\<close>

definition blinker5 :: ndarray where
  "blinker5 = [[0,0,0,0,0],[0,0,0,0,0],[0,1,1,1,0],[0,0,0,0,0],[0,0,0,0,0]]"

definition ex_state :: GameOfLife where
  "ex_state = \<lparr> heap = (\<lambda>_. [])(0 := blinker5), grid_size = 5, cell_size = 10,
                 grid = 0, generation = 0, live_history = [],
                 grid_widget = \<lparr> w_grid = 0, w_cell_size = 10, x_offset = 20, y_offset = 60 \<rparr>,
                 ax = None \<rparr>"

subsection \<open>What the axes show, and the states the program reaches\<close>

text \<open>The lists \<open>update_plot\<close> draws for a history \<open>lh\<close>.\<close>

definition plot_of :: "(real \<Rightarrow> real) \<Rightarrow> int \<Rightarrow> int list \<Rightarrow> plotted" where
  "plot_of fl gsize lh =
     \<lparr> generations = map int [1..<length lh + 1], live = lh,
       occupancy = occupancy_of fl gsize lh, growth = growth_of lh \<rparr>"

text \<open>
  The axes are empty until the first \<open>update_plot\<close>; afterwards they show the series of
  the current history.
\<close>

definition series_ok :: "(real \<Rightarrow> real) \<Rightarrow> GameOfLife \<Rightarrow> bool" where
  "series_ok fl s \<longleftrightarrow>
     (case ax s of
        None \<Rightarrow> live_history s = []
      | Some p \<Rightarrow> live_history s \<noteq> [] \<and> p = plot_of fl (grid_size s) (live_history s))"

definition history_bounded :: "GameOfLife \<Rightarrow> bool" where
  "history_bounded s \<longleftrightarrow> (\<forall>v \<in> set (live_history s). 0 \<le> v \<and> v \<le> (grid_size s)\<^sup>2)"

definition inv :: "(real \<Rightarrow> real) \<Rightarrow> GameOfLife \<Rightarrow> bool" where
  "inv fl s \<longleftrightarrow> wf s \<and> series_ok fl s \<and> history_bounded s
     \<and> generation s = int (length (live_history s))"

text \<open>
  The states of a run: the constructor, then any sequence of timer ticks
  (\<open>update_state\<close>), button presses and clicks that return normally.
\<close>

inductive reachable :: "(real \<Rightarrow> real) \<Rightarrow> GameOfLife \<Rightarrow> bool" for fl where
  r_init: "init rand gsize csize = Inr s \<Longrightarrow> reachable fl s"
| r_update: "reachable fl s \<Longrightarrow> update_state fl s = Inr s' \<Longrightarrow> reachable fl s'"
| r_clear: "reachable fl s \<Longrightarrow> clear_grid fl s = Inr s' \<Longrightarrow> reachable fl s'"
| r_randomize: "reachable fl s \<Longrightarrow> randomize_grid fl rand s = Inr s' \<Longrightarrow> reachable fl s'"
| r_click: "reachable fl s \<Longrightarrow> mousePressEvent ev s = Inr s' \<Longrightarrow> reachable fl s'"

text \<open>
  What is asked of the rounding of \<open>float64\<close> where a bound on a rounded value is
  proved: it is monotone and leaves 0, 1 and 100 as they are.
\<close>

definition rounding :: "(real \<Rightarrow> real) \<Rightarrow> bool" where
  "rounding fl \<longleftrightarrow> mono fl \<and> fl 0 = 0 \<and> fl 1 = 1 \<and> fl 100 = 100"

text \<open>
  An operation keeps the array: \<open>self.grid\<close> and the widget still refer to the same
  address, the array there has the shape it had, and no other array was written.
\<close>

definition same_array :: "GameOfLife \<Rightarrow> GameOfLife \<Rightarrow> bool" where
  "same_array s s' \<longleftrightarrow> grid s' = grid s \<and> w_grid (grid_widget s') = w_grid (grid_widget s)
     \<and> shape (the_grid s') = shape (the_grid s) \<and> grid_size s' = grid_size s
     \<and> (\<forall>a. a \<noteq> grid s \<longrightarrow> heap s' a = heap s a)"

subsection \<open>More sample states\<close>

text \<open>
  Draws that give the blinker, the state one generation after the sample state, and the
  sample state after \<open>clear_grid\<close>.
\<close>

definition ex_rand :: "nat \<Rightarrow> nat \<Rightarrow> real" where
  "ex_rand y x = (if y = 2 \<and> 1 \<le> x \<and> x \<le> 3 then 0 else 1)"

definition blinker5_v :: ndarray where
  "blinker5_v = [[0,0,0,0,0],[0,0,1,0,0],[0,0,1,0,0],[0,0,1,0,0],[0,0,0,0,0]]"

definition ex_next :: GameOfLife where
  "ex_next = \<lparr> heap = (\<lambda>_. [])(0 := blinker5_v), grid_size = 5, cell_size = 10,
                 grid = 0, generation = 1, live_history = [3],
                 grid_widget = \<lparr> w_grid = 0, w_cell_size = 10, x_offset = 20, y_offset = 60 \<rparr>,
                 ax = Some \<lparr> generations = [1], live = [3], occupancy = [Finite 12],
                             growth = [0] \<rparr> \<rparr>"

definition ex_cleared :: GameOfLife where
  "ex_cleared = \<lparr> heap = (\<lambda>_. [])(0 := [[0,0,0,0,0],[0,0,0,0,0],[0,0,0,0,0],[0,0,0,0,0],[0,0,0,0,0]]), grid_size = 5, cell_size = 10,
                 grid = 0, generation = 1, live_history = [0],
                 grid_widget = \<lparr> w_grid = 0, w_cell_size = 10, x_offset = 20, y_offset = 60 \<rparr>,
                 ax = Some \<lparr> generations = [1], live = [0], occupancy = [Finite 0],
                             growth = [0] \<rparr> \<rparr>"

text \<open>The sample state with another history: the same grid, different counters.\<close>

definition ex_other :: GameOfLife where
  "ex_other = ex_state\<lparr> generation := 7, live_history := [4, 3] \<rparr>"

text \<open>
  The state after a click on the centre of the vertical blinker, and the one after the
  next generation, in which the two remaining cells have died.
\<close>

definition ex_mid :: GameOfLife where
  "ex_mid = \<lparr> heap = (\<lambda>_. [])(0 := [[0,0,0,0,0],[0,0,1,0,0],[0,0,0,0,0],[0,0,1,0,0],[0,0,0,0,0]]),
                 grid_size = 5, cell_size = 10,
                 grid = 0, generation = 1, live_history = [3],
                 grid_widget = \<lparr> w_grid = 0, w_cell_size = 10, x_offset = 20, y_offset = 60 \<rparr>,
                 ax = Some \<lparr> generations = [1], live = [3], occupancy = [Finite 12],
                             growth = [0] \<rparr> \<rparr>"

definition ex_later :: GameOfLife where
  "ex_later = \<lparr> heap = (\<lambda>_. [])(0 := [[0,0,0,0,0],[0,0,0,0,0],[0,0,0,0,0],[0,0,0,0,0],[0,0,0,0,0]]),
                 grid_size = 5, cell_size = 10,
                 grid = 0, generation = 2, live_history = [3, 0],
                 grid_widget = \<lparr> w_grid = 0, w_cell_size = 10, x_offset = 20, y_offset = 60 \<rparr>,
                 ax = Some \<lparr> generations = [1, 2], live = [3, 0],
                             occupancy = [Finite 12, Finite 0], growth = [0, -3] \<rparr> \<rparr>"

text \<open>
  The constructor accepts \<open>grid_size = 0\<close>: the state it builds then, with an empty
  array, and the state one generation later.
\<close>

definition ex_empty :: GameOfLife where
  "ex_empty = \<lparr> heap = (\<lambda>_. [])(0 := []), grid_size = 0, cell_size = 10,
                 grid = 0, generation = 0, live_history = [],
                 grid_widget = \<lparr> w_grid = 0, w_cell_size = 10, x_offset = 20, y_offset = 60 \<rparr>,
                 ax = None \<rparr>"

definition ex_empty_next :: GameOfLife where
  "ex_empty_next = \<lparr> heap = (\<lambda>_. [])(0 := []), grid_size = 0, cell_size = 10,
                 grid = 0, generation = 1, live_history = [0],
                 grid_widget = \<lparr> w_grid = 0, w_cell_size = 10, x_offset = 20, y_offset = 60 \<rparr>,
                 ax = Some \<lparr> generations = [1], live = [0], occupancy = [NaN],
                             growth = [0] \<rparr> \<rparr>"

subsection \<open>The blinker\<close>

text \<open>
  \<open>near n c x\<close>: on a ring of \<open>n\<close> positions, \<open>x\<close> is \<open>c\<close> or one of its two
  neighbours. \<open>pattern\<close> builds the grid whose live cells are those in a row
  satisfying \<open>R\<close> and a column satisfying \<open>C\<close>. The horizontal blinker centred at
  \<open>(cx, cy)\<close> has its three live cells in row \<open>cy\<close>, the vertical one in column
  \<open>cx\<close>.
\<close>

definition near :: "nat \<Rightarrow> nat \<Rightarrow> nat \<Rightarrow> bool" where
  "near n c x \<longleftrightarrow> x = c \<or> x = (c + 1) mod n \<or> (x + 1) mod n = c"

definition pattern :: "nat \<Rightarrow> (nat \<Rightarrow> bool) \<Rightarrow> (nat \<Rightarrow> bool) \<Rightarrow> ndarray" where
  "pattern n R C = map (\<lambda>y. map (\<lambda>x. if R y \<and> C x then 1 else 0) [0..<n]) [0..<n]"

definition blinker_h :: "nat \<Rightarrow> nat \<Rightarrow> nat \<Rightarrow> ndarray" where
  "blinker_h n cx cy = pattern n (\<lambda>y. y = cy) (near n cx)"

definition blinker_v :: "nat \<Rightarrow> nat \<Rightarrow> nat \<Rightarrow> ndarray" where
  "blinker_v n cx cy = pattern n (near n cy) (\<lambda>x. x = cx)"

text \<open>The positions before and after \<open>y\<close> on the ring, and a truth value as 0 or 1.\<close>

definition pv :: "nat \<Rightarrow> nat \<Rightarrow> nat" where
  "pv n y = (if y = 0 then n - 1 else y - 1)"

definition nx :: "nat \<Rightarrow> nat \<Rightarrow> nat" where
  "nx n y = (if y + 1 = n then 0 else y + 1)"

definition b2i :: "bool \<Rightarrow> int" where
  "b2i P = (if P then 1 else 0)"

section \<open>Lemmas about arrays\<close>

lemma is_grid_rect: "is_grid h w g \<Longrightarrow> rect h w g"
  by (auto simp: is_grid_def rect_def)

lemma rect_row: "rect h w a \<Longrightarrow> y < h \<Longrightarrow> length (a ! y) = w"
  by (auto simp: rect_def)

lemma rectI: "length a = h \<Longrightarrow> (\<And>y. y < h \<Longrightarrow> length (a ! y) = w) \<Longrightarrow> rect h w a"
  by (auto simp: rect_def in_set_conv_nth)

lemma length_roll [simp]: "length (roll k xs) = length xs"
  by (simp add: roll_def)

lemma nth_roll: "i < length xs \<Longrightarrow> roll k xs ! i = xs ! nat ((int i - k) mod int (length xs))"
  by (simp add: roll_def)

lemma roll_index_less: "i < n \<Longrightarrow> nat ((int i - k) mod int n) < n"
  by (simp add: nat_less_iff)

lemma rect_roll_axis0: "rect h w a \<Longrightarrow> rect h w (roll_axis0 k a)"
  by (rule rectI) (simp_all add: roll_axis0_def nth_roll rect_def roll_index_less)

lemma rect_roll_axis1: "rect h w a \<Longrightarrow> rect h w (roll_axis1 k a)"
  by (auto simp: roll_axis1_def rect_def)

lemma nth_rolled:
  assumes "rect h w a" "y < h" "x < w"
  shows "roll_axis1 j (roll_axis0 i a) ! y ! x
           = a ! nat ((int y - i) mod int h) ! nat ((int x - j) mod int w)"
proof -
  have h: "length a = h" using assms by (simp add: rect_def)
  have "roll_axis0 i a ! y = a ! nat ((int y - i) mod int h)"
    using assms h by (simp add: roll_axis0_def nth_roll)
  moreover have "length (a ! nat ((int y - i) mod int h)) = w"
    using assms by (intro rect_row[OF assms(1)] roll_index_less)
  ultimately show ?thesis
    using assms h by (simp add: roll_axis1_def roll_axis0_def nth_roll)
qed

lemma rect_arr_add: "rect h w a \<Longrightarrow> rect h w b \<Longrightarrow> rect h w (arr_add a b)"
  by (rule rectI) (simp_all add: arr_add_def rect_def)

lemma nth_arr_add:
  "rect h w a \<Longrightarrow> rect h w b \<Longrightarrow> y < h \<Longrightarrow> x < w \<Longrightarrow> arr_add a b ! y ! x = a ! y ! x + b ! y ! x"
  by (simp add: arr_add_def rect_def)

lemma rect_scalar_add: "rect h w a \<Longrightarrow> rect h w (scalar_add c a)"
  by (auto simp: scalar_add_def rect_def)

lemma nth_scalar_add:
  "rect h w a \<Longrightarrow> y < h \<Longrightarrow> x < w \<Longrightarrow> scalar_add c a ! y ! x = c + a ! y ! x"
  by (simp add: scalar_add_def rect_def)

lemma foldl_arr_add:
  assumes "rect h w acc" "\<forall>a \<in> set as. rect h w a"
  shows "rect h w (foldl arr_add acc as)"
    and "y < h \<Longrightarrow> x < w \<Longrightarrow>
         foldl arr_add acc as ! y ! x = acc ! y ! x + (\<Sum>a\<leftarrow>as. a ! y ! x)"
  using assms
proof (induction as arbitrary: acc)
  case Nil
  { case 1 then show ?case by simp }
  { case 2 then show ?case by simp }
next
  case (Cons b bs)
  { case 1 then show ?case using Cons.IH(1)[of "arr_add acc b"] by (simp add: rect_arr_add) }
  { case 2 then show ?case using Cons.IH(2)[of "arr_add acc b"]
      by (simp add: rect_arr_add nth_arr_add) }
qed

lemma py_sum_rect:
  assumes "as \<noteq> []" "\<forall>a \<in> set as. rect h w a"
  shows "rect h w (py_sum as)"
    and "y < h \<Longrightarrow> x < w \<Longrightarrow> py_sum as ! y ! x = (\<Sum>a\<leftarrow>as. a ! y ! x)"
proof -
  from assms(1) obtain b bs where as: "as = b # bs" by (cases as) auto
  with assms(2) have b: "rect h w (scalar_add 0 b)" and bs: "\<forall>a \<in> set bs. rect h w a"
    by (simp_all add: rect_scalar_add)
  show "rect h w (py_sum as)"
    using foldl_arr_add(1)[OF b bs] by (simp add: as)
  show "py_sum as ! y ! x = (\<Sum>a\<leftarrow>as. a ! y ! x)" if "y < h" "x < w"
  proof -
    have "rect h w b" using assms(2) as by simp
    then show ?thesis
      using foldl_arr_add(2)[OF b bs that] that by (simp add: as nth_scalar_add)
  qed
qed

lemma neighbors_rect: "rect h w g \<Longrightarrow> rect h w (neighbors g)"
  unfolding neighbors_def
  by (rule py_sum_rect(1)) (auto simp: shifts_def rect_roll_axis0 rect_roll_axis1)

lemma nth_neighbors:
  assumes "rect h w g" "y < h" "x < w"
  shows "neighbors g ! y ! x =
     (\<Sum>(i, j)\<leftarrow>shifts. g ! nat ((int y - i) mod int h) ! nat ((int x - j) mod int w))"
proof -
  have "neighbors g ! y ! x = (\<Sum>a\<leftarrow>map (\<lambda>(i, j). roll_axis1 j (roll_axis0 i g)) shifts. a ! y ! x)"
    unfolding neighbors_def using assms
    by (intro py_sum_rect(2)) (auto simp: shifts_def rect_roll_axis0 rect_roll_axis1)
  also have "\<dots> = (\<Sum>(i, j)\<leftarrow>shifts. roll_axis1 j (roll_axis0 i g) ! y ! x)"
    by (simp add: comp_def case_prod_unfold)
  also have "\<dots> = (\<Sum>(i, j)\<leftarrow>shifts. g ! nat ((int y - i) mod int h) ! nat ((int x - j) mod int w))"
    using assms by (simp add: nth_rolled)
  finally show ?thesis .
qed


lemma rect_shape: "rect h w a \<Longrightarrow> 0 < h \<Longrightarrow> shape a = (h, w)"
  by (cases a) (auto simp: rect_def shape_def)

lemma rect_new_grid: "rect h w g \<Longrightarrow> rect h w (new_grid g)"
  using neighbors_rect[of h w g] by (intro rectI) (simp_all add: new_grid_def rect_def)

lemma nth_new_grid:
  "rect h w g \<Longrightarrow> y < h \<Longrightarrow> x < w \<Longrightarrow> new_grid g ! y ! x = rule (g ! y ! x) (neighbors g ! y ! x)"
  using neighbors_rect[of h w g] by (simp add: new_grid_def rect_def)

lemma is_gridI:
  assumes "rect h w a" "\<And>y x. y < h \<Longrightarrow> x < w \<Longrightarrow> a ! y ! x = 0 \<or> a ! y ! x = 1"
  shows "is_grid h w a"
  unfolding is_grid_def
proof (intro conjI ballI)
  show "length a = h" using assms(1) by (simp add: rect_def)
next
  fix r assume "r \<in> set a"
  then show "length r = w" using assms(1) by (simp add: rect_def)
next
  fix r c assume r: "r \<in> set a" and c: "c \<in> set r"
  from r obtain y where y: "y < length a" "r = a ! y" by (auto simp: in_set_conv_nth)
  from c obtain x where x: "x < length r" "c = r ! x" by (auto simp: in_set_conv_nth)
  from y x assms(1) have "y < h" "x < w" by (auto simp: rect_def)
  then show "c = 0 \<or> c = 1" using assms(2) y x by simp
qed

lemma is_grid_new_grid: "rect h w g \<Longrightarrow> is_grid h w (new_grid g)"
  by (rule is_gridI) (auto simp: rect_new_grid nth_new_grid rule_def)

lemma broadcast_to_same:
  assumes "rect h w a"
  shows "broadcast_to (shape a) a = Inr a"
proof (cases "h = 0")
  case True
  with assms have "a = []" by (simp add: rect_def)
  then show ?thesis by (simp add: broadcast_to_def shape_def)
next
  case False
  then have sh: "shape a = (h, w)" using rect_shape[OF assms] by simp
  have "map (\<lambda>y. map (\<lambda>x. a ! (if h = 1 then 0 else y) ! (if w = 1 then 0 else x)) [0..<w]) [0..<h] = a"
  proof (rule nth_equalityI)
    show "length (map (\<lambda>y. map (\<lambda>x. a ! (if h = 1 then 0 else y) ! (if w = 1 then 0 else x)) [0..<w]) [0..<h]) = length a"
      using assms by (simp add: rect_def)
  next
    fix y assume "y < length (map (\<lambda>y. map (\<lambda>x. a ! (if h = 1 then 0 else y) ! (if w = 1 then 0 else x)) [0..<w]) [0..<h])"
    then have y: "y < h" by simp
    have len: "length (a ! y) = w" using rect_row[OF assms y] .
    have "map (\<lambda>x. a ! (if h = 1 then 0 else y) ! (if w = 1 then 0 else x)) [0..<w] = a ! y"
      using y len by (intro nth_equalityI) auto
    then show "map (\<lambda>y. map (\<lambda>x. a ! (if h = 1 then 0 else y) ! (if w = 1 then 0 else x)) [0..<w]) [0..<h] ! y = a ! y"
      using y by (cases "h = 1") auto
  qed
  then show ?thesis by (simp add: broadcast_to_def sh)
qed

lemma broadcast_to_rect: "broadcast_to (h, w) src = Inr a \<Longrightarrow> rect h w a"
  by (auto simp: broadcast_to_def rect_def split: prod.splits if_splits)

lemma shape_Nil [simp]: "shape [] = (0, 0)"
  by (simp add: shape_def)

lemma shape_broadcast_to:
  assumes "broadcast_to (shape d) src = Inr a"
  shows "shape a = shape d"
proof (cases d)
  case Nil
  with assms have "rect 0 0 a" using broadcast_to_rect[of 0 0 src a] by simp
  then show ?thesis using Nil by (simp add: rect_def)
next
  case (Cons r rs)
  then have "shape d = (length d, length r)" by (simp add: shape_def)
  with assms have "rect (length d) (length r) a" using broadcast_to_rect by simp
  then show ?thesis using rect_shape[of "length d" "length r" a] Cons by (simp add: shape_def)
qed

lemma shifts_eq:
  "shifts = [(-1, -1), (-1, 0), (-1, 1), (0, -1), (0, 1), (1, -1), (1, 0), (1, 1)]"
  by (simp add: shifts_def)

lemma neighbors_eq_neighbor_count:
  assumes "rect h w g" "y < h" "x < w"
  shows "neighbors g ! y ! x = neighbor_count g x y"
proof -
  have sh: "height g = h" "width g = w"
    using rect_shape[OF assms(1)] assms(2) by (simp_all add: height_def width_def)
  show ?thesis
    unfolding nth_neighbors[OF assms] neighbor_count_def sh shifts_eq
    by simp
qed

lemma is_grid_shape: "is_grid h w g \<Longrightarrow> 0 < h \<Longrightarrow> shape g = (h, w)"
  by (simp add: is_grid_rect rect_shape)

lemma wf_ex_state: "wf ex_state"
  by (simp add: wf_def ex_state_def the_grid_def is_grid_def blinker5_def)

lemma toggle_back:
  fixes g :: ndarray
  assumes "r < length g" "c < length (g ! r)"
  shows "(g[r := (g ! r)[c := 1 - g ! r ! c]])
           [r := ((g[r := (g ! r)[c := 1 - g ! r ! c]]) ! r)
                   [c := 1 - (g[r := (g ! r)[c := 1 - g ! r ! c]]) ! r ! c]] = g"
  using assms by (simp add: list_update_same_conv)

section \<open>Lemmas about the operations\<close>

lemma length_growth_of: "lh \<noteq> [] \<Longrightarrow> length (growth_of lh) = length lh"
  by (simp add: growth_of_def)

lemma length_growth_of_snoc [simp]: "length (growth_of (xs @ [x])) = Suc (length xs)"
  using length_growth_of[of "xs @ [x]"] by simp

lemma length_occupancy_of [simp]: "length (occupancy_of fl n lh) = length lh"
  by (simp add: occupancy_of_def)

lemma update_plot_eq:
  "update_plot fl s =
     Inr (s\<lparr> generation := generation s + 1,
             live_history := live_history s @ [np_sum (the_grid s)],
             ax := Some (plot_of fl (grid_size s) (live_history s @ [np_sum (the_grid s)])) \<rparr>)"
proof -
  let ?lh = "live_history s @ [np_sum (the_grid s)]"
  have 1: "length (map int [1..<length ?lh + 1]) = length ?lh"
    by (simp del: upt_Suc)
  have 2: "length (growth_of ?lh) = length ?lh"
    by (rule length_growth_of) simp
  have 3: "length (occupancy_of fl (grid_size s) ?lh) = length ?lh"
    by (rule length_occupancy_of)
  show ?thesis
    unfolding update_plot_def Let_def plot_of_def
    by (simp only: 1 2 3 simp_thms if_True)
qed

lemma the_grid_heap_upd [simp]: "the_grid (s\<lparr> heap := (heap s)(grid s := g) \<rparr>) = g"
  by (simp add: the_grid_def)

lemma update_state_eq:
  assumes "rect h w (the_grid s)"
  shows "update_state fl s =
     Inr (s\<lparr> heap := (heap s)(grid s := new_grid (the_grid s)),
             generation := generation s + 1,
             live_history := live_history s @ [np_sum (new_grid (the_grid s))],
             ax := Some (plot_of fl (grid_size s)
                     (live_history s @ [np_sum (new_grid (the_grid s))])) \<rparr>)"
proof -
  have "shape (new_grid (the_grid s)) = shape (the_grid s)"
  proof (cases "h = 0")
    case True
    with assms rect_new_grid[OF assms] show ?thesis by (simp add: rect_def)
  next
    case False
    then show ?thesis using rect_shape[OF assms] rect_shape[OF rect_new_grid[OF assms]] by simp
  qed
  then have "broadcast_to (shape (the_grid s)) (new_grid (the_grid s)) = Inr (new_grid (the_grid s))"
    using broadcast_to_same[OF rect_new_grid[OF assms]] by simp
  then show ?thesis
    by (simp add: update_state_def update_plot_eq the_grid_def)
qed

lemma clear_grid_eq:
  "clear_grid fl s =
     Inr (s\<lparr> heap := (heap s)(grid s := full (shape (the_grid s)) 0),
             generation := 1,
             live_history := [np_sum (full (shape (the_grid s)) 0)],
             ax := Some (plot_of fl (grid_size s) [np_sum (full (shape (the_grid s)) 0)]) \<rparr>)"
  by (simp add: clear_grid_def update_plot_eq the_grid_def)

lemma np_sum_full_0 [simp]: "np_sum (full sh 0) = 0"
  by (cases sh) (simp add: np_sum_def full_def sum_list_replicate)

lemma random_grid_is_grid: "random_grid rand n = Inr r \<Longrightarrow> is_grid (nat n) (nat n) r"
  by (auto simp: random_grid_def is_grid_def split: if_splits)

lemma randomize_grid_eq:
  assumes "wf s"
  shows "\<exists>r. random_grid rand (grid_size s) = Inr r \<and> randomize_grid fl rand s =
     Inr (s\<lparr> heap := (heap s)(grid s := r),
             generation := 1,
             live_history := [np_sum r],
             ax := Some (plot_of fl (grid_size s) [np_sum r]) \<rparr>)"
proof -
  let ?n = "nat (grid_size s)"
  from assms have n: "0 \<le> grid_size s" and g: "is_grid ?n ?n (the_grid s)" by (auto simp: wf_def)
  from n obtain r where r: "random_grid rand (grid_size s) = Inr r" by (auto simp: random_grid_def)
  have rg: "is_grid ?n ?n r" using random_grid_is_grid[OF r] .
  have "shape r = shape (the_grid s)"
  proof (cases "?n = 0")
    case True
    with rg g show ?thesis by (simp add: is_grid_def)
  next
    case False
    then show ?thesis using is_grid_shape[OF rg] is_grid_shape[OF g] by simp
  qed
  then have "broadcast_to (shape (the_grid s)) r = Inr r"
    using broadcast_to_same[OF is_grid_rect[OF rg]] by simp
  then show ?thesis using r
    by (simp add: randomize_grid_def update_plot_eq the_grid_def)
qed

lemma row_sum_bounds:
  "\<forall>c \<in> set r. c = 0 \<or> c = (1::int) \<Longrightarrow> 0 \<le> sum_list r \<and> sum_list r \<le> int (length r)"
  by (induction r) auto

lemma np_sum_bounds:
  assumes "is_grid h w g"
  shows "0 \<le> np_sum g \<and> np_sum g \<le> int (h * w)"
proof -
  have "\<forall>r \<in> set g. length r = w \<and> (\<forall>c \<in> set r. c = 0 \<or> c = 1) \<Longrightarrow>
        0 \<le> sum_list (map sum_list g) \<and> sum_list (map sum_list g) \<le> int (length g * w)"
  proof (induction g)
    case Nil
    then show ?case by simp
  next
    case (Cons r g)
    then have "0 \<le> sum_list r \<and> sum_list r \<le> int w" using row_sum_bounds[of r] by auto
    with Cons show ?case by (auto simp: algebra_simps)
  qed
  with assms show ?thesis by (simp add: np_sum_def is_grid_def)
qed

lemma wf_np_sum:
  assumes "0 \<le> n" "is_grid (nat n) (nat n) g"
  shows "0 \<le> np_sum g \<and> np_sum g \<le> n\<^sup>2"
proof -
  have "int (nat n * nat n) = n\<^sup>2" using assms(1) by (simp add: power2_eq_square)
  with np_sum_bounds[OF assms(2)] show ?thesis by simp
qed

lemma is_grid_full: "is_grid h w (full (h, w) 0)"
  by (simp add: is_grid_def full_def)

lemma shape_full: "shape (full (shape g) c) = shape g"
  by (cases g) (auto simp: shape_def full_def split: nat.splits)

lemma is_grid_full_shape: "is_grid h w g \<Longrightarrow> is_grid h w (full (shape g) 0)"
  by (cases "h = 0") (auto simp: is_grid_shape is_grid_full, simp add: is_grid_def full_def)

lemma is_grid_toggle:
  assumes "is_grid h w g" "r < h" "c < w"
  shows "is_grid h w (g[r := (g ! r)[c := 1 - g ! r ! c]])"
proof (rule is_gridI)
  show "rect h w (g[r := (g ! r)[c := 1 - g ! r ! c]])"
    using is_grid_rect[OF assms(1)] assms(2) by (intro rectI) (auto simp: rect_def nth_list_update)
next
  fix y x assume yx: "y < h" "x < w"
  have len: "length g = h" using assms(1) by (simp add: is_grid_def)
  have row: "length (g ! r) = w" using rect_row[OF is_grid_rect[OF assms(1)] assms(2)] .
  have old: "g ! y ! x = 0 \<or> g ! y ! x = 1"
    using assms(1) yx by (auto simp: is_grid_def) (metis nth_mem)+
  have old': "g ! r ! c = 0 \<or> g ! r ! c = 1"
    using assms by (auto simp: is_grid_def) (metis nth_mem)+
  show "g[r := (g ! r)[c := 1 - g ! r ! c]] ! y ! x = 0 \<or> g[r := (g ! r)[c := 1 - g ! r ! c]] ! y ! x = 1"
    using old old' yx len row assms(2,3) by (auto simp: nth_list_update split: if_splits)
qed

lemma shape_toggle: "shape (g[r := (g ! r)[c := v]]) = shape g"
  by (cases g; cases r) (simp_all add: shape_def)

lemma np_index_less: "np_index n i = Inr r \<Longrightarrow> r < n"
  by (auto simp: np_index_def split: if_splits)

lemma mousePressEvent_cases:
  assumes "mousePressEvent ev s = Inr s'"
  shows "s' = s \<or> (\<exists>r c. r < fst (shape (the_grid s)) \<and> c < snd (shape (the_grid s)) \<and>
           s' = s\<lparr> heap := (heap s)(grid s :=
                   (the_grid s)[r := (the_grid s ! r)[c := 1 - the_grid s ! r ! c]]) \<rparr>)"
  using assms
  by (auto simp: mousePressEvent_def Let_def split: sum.splits prod.splits if_splits
           dest!: np_index_less)

lemma inv_init: "init rand gsize csize = Inr s \<Longrightarrow> inv fl s"
  by (auto simp: init_def inv_def wf_def series_ok_def history_bounded_def the_grid_def
           random_grid_def is_grid_def split: sum.splits if_splits)

lemma wf_rect: "wf s \<Longrightarrow> rect (nat (grid_size s)) (nat (grid_size s)) (the_grid s)"
  by (simp add: wf_def is_grid_rect)

lemma inv_recorded:
  assumes "wf s" "history_bounded s" "generation s = int (length (live_history s))"
    and "is_grid (nat (grid_size s)) (nat (grid_size s)) g"
  shows "inv fl (s\<lparr> heap := (heap s)(grid s := g),
                    generation := generation s + 1,
                    live_history := live_history s @ [np_sum g],
                    ax := Some (plot_of fl (grid_size s) (live_history s @ [np_sum g])) \<rparr>)"
proof -
  from assms(1) have n: "0 \<le> grid_size s" by (simp add: wf_def)
  from wf_np_sum[OF n assms(4)] assms(1-3) assms(4) show ?thesis
    by (simp add: inv_def wf_def series_ok_def history_bounded_def the_grid_def)
qed

lemma inv_reset:
  assumes "wf s" and "is_grid (nat (grid_size s)) (nat (grid_size s)) g"
  shows "inv fl (s\<lparr> heap := (heap s)(grid s := g),
                    generation := 1,
                    live_history := [np_sum g],
                    ax := Some (plot_of fl (grid_size s) [np_sum g]) \<rparr>)"
proof -
  let ?s0 = "s\<lparr> live_history := [], generation := 0 \<rparr>"
  have "wf ?s0" "history_bounded ?s0" "generation ?s0 = int (length (live_history ?s0))"
    using assms(1) by (simp_all add: wf_def history_bounded_def the_grid_def)
  from inv_recorded[OF this, of g fl] assms(2) show ?thesis by simp
qed

lemma inv_update_state:
  assumes "inv fl s" "update_state fl s = Inr s'"
  shows "inv fl s'"
proof -
  from assms(1) have wf: "wf s" by (simp add: inv_def)
  have g: "is_grid (nat (grid_size s)) (nat (grid_size s)) (new_grid (the_grid s))"
    using is_grid_new_grid[OF wf_rect[OF wf]] .
  from assms(1) have "history_bounded s" "generation s = int (length (live_history s))"
    by (simp_all add: inv_def)
  from inv_recorded[OF wf this g, of fl] assms(2) show ?thesis
    unfolding update_state_eq[OF wf_rect[OF wf]] by simp
qed

lemma inv_clear_grid:
  assumes "inv fl s" "clear_grid fl s = Inr s'"
  shows "inv fl s'"
proof -
  from assms(1) have wf: "wf s" by (simp add: inv_def)
  then have "is_grid (nat (grid_size s)) (nat (grid_size s)) (full (shape (the_grid s)) 0)"
    by (simp add: wf_def is_grid_full_shape)
  from inv_reset[OF wf this, of fl] assms(2) show ?thesis
    unfolding clear_grid_eq by simp
qed

lemma inv_randomize_grid:
  assumes "inv fl s" "randomize_grid fl rand s = Inr s'"
  shows "inv fl s'"
proof -
  from assms(1) have wf: "wf s" by (simp add: inv_def)
  from randomize_grid_eq[OF wf, of rand fl] obtain r where
    r: "random_grid rand (grid_size s) = Inr r"
    and eq: "randomize_grid fl rand s =
       Inr (s\<lparr> heap := (heap s)(grid s := r), generation := 1, live_history := [np_sum r],
               ax := Some (plot_of fl (grid_size s) [np_sum r]) \<rparr>)"
    by blast
  from inv_reset[OF wf random_grid_is_grid[OF r], of fl] assms(2) eq show ?thesis by simp
qed

lemma inv_mousePressEvent:
  assumes "inv fl s" "mousePressEvent ev s = Inr s'"
  shows "inv fl s'"
proof -
  let ?n = "nat (grid_size s)"
  let ?g = "the_grid s"
  from assms(1) have wf: "wf s" by (simp add: inv_def)
  then have g: "is_grid ?n ?n ?g" by (simp add: wf_def)
  from mousePressEvent_cases[OF assms(2)] show ?thesis
  proof
    assume "s' = s" with assms(1) show ?thesis by simp
  next
    assume "\<exists>r c. r < fst (shape ?g) \<and> c < snd (shape ?g) \<and>
           s' = s\<lparr> heap := (heap s)(grid s := ?g[r := (?g ! r)[c := 1 - ?g ! r ! c]]) \<rparr>"
    then obtain r c where rc: "r < fst (shape ?g)" "c < snd (shape ?g)"
      and s': "s' = s\<lparr> heap := (heap s)(grid s := ?g[r := (?g ! r)[c := 1 - ?g ! r ! c]]) \<rparr>"
      by blast
    from rc(1) g have n: "0 < ?n" by (auto simp: shape_def is_grid_def)
    from rc is_grid_shape[OF g n] have "r < ?n" "c < ?n" by simp_all
    from is_grid_toggle[OF g this] assms(1) show ?thesis
      unfolding s' by (auto simp: inv_def wf_def series_ok_def history_bounded_def the_grid_def
                        split: option.splits)
  qed
qed

lemma reachable_inv: "reachable fl s \<Longrightarrow> inv fl s"
  by (induction rule: reachable.induct)
     (auto intro: inv_init inv_update_state inv_clear_grid inv_randomize_grid inv_mousePressEvent)

lemma nth_growth_of:
  "i < length lh \<Longrightarrow> growth_of lh ! i = (if i = 0 then 0 else lh ! i - lh ! (i - 1))"
proof (cases i)
  case 0
  then show ?thesis by (simp add: growth_of_def)
next
  case (Suc k)
  assume "i < length lh"
  with Suc have "[1..<length lh] ! k = Suc k" "k < length [1..<length lh]"
    using nth_upt[of 1 k "length lh"] by simp_all
  with Suc show ?thesis by (simp add: growth_of_def del: upt_Suc)
qed

lemma area_eq:
  assumes "wf s"
  shows "int (width (the_grid s) * height (the_grid s)) = (grid_size s)\<^sup>2"
proof (cases "nat (grid_size s) = 0")
  case True
  with assms show ?thesis by (simp add: wf_def is_grid_def width_def height_def)
next
  case False
  with assms have "shape (the_grid s) = (nat (grid_size s), nat (grid_size s))"
    by (simp add: wf_def is_grid_shape)
  with assms show ?thesis by (simp add: width_def height_def wf_def power2_eq_square)
qed

lemma occupancy_in_range:
  assumes "rounding fl" "0 \<le> v" "v \<le> n" "0 < n"
  shows "\<exists>r. fmul fl (true_divide fl v n) 100 = Finite r \<and> 0 \<le> r \<and> r \<le> 100"
proof -
  from assms(1) have m: "\<And>a b. a \<le> b \<Longrightarrow> fl a \<le> fl b" and f0: "fl 0 = 0" and f1: "fl 1 = 1"
    and f100: "fl 100 = 100" by (auto simp: rounding_def mono_def)
  let ?x = "fl (of_int v)" and ?y = "fl (of_int n)"
  have x0: "0 \<le> ?x" using m[of 0 "of_int v"] assms(2) f0 by simp
  have xy: "?x \<le> ?y" using m[of "of_int v" "of_int n"] assms(3) by simp
  have y1: "1 \<le> ?y" using m[of 1 "of_int n"] assms(4) f1 by simp
  have q: "0 \<le> ?x / ?y" "?x / ?y \<le> 1" using x0 xy y1 by simp_all
  have fq: "0 \<le> fl (?x / ?y)" "fl (?x / ?y) \<le> 1" using m[OF q(1)] m[OF q(2)] f0 f1 by simp_all
  then have "0 \<le> fl (?x / ?y) * 100" "fl (?x / ?y) * 100 \<le> 100" by simp_all
  then have "0 \<le> fl (fl (?x / ?y) * 100)" "fl (fl (?x / ?y) * 100) \<le> 100"
    using m[of 0 "fl (?x / ?y) * 100"] m[of "fl (?x / ?y) * 100" 100] f0 f100 by simp_all
  moreover have "fmul fl (true_divide fl v n) 100 = Finite (fl (fl (?x / ?y) * 100))"
    using y1 f100 by (simp add: true_divide_def Let_def)
  ultimately show ?thesis by blast
qed

lemma upt5: "[0..<5] = [0, 1, 2, 3, 4]"
  by (simp add: upt_rec)

lemma random_grid_ex: "random_grid ex_rand 5 = Inr blinker5"
  by (simp add: random_grid_def ex_rand_def blinker5_def upt5)

lemma init_ex: "init ex_rand 5 10 = Inr ex_state"
  by (simp add: init_def random_grid_ex ex_state_def)

lemma new_grid_blinker5: "new_grid blinker5 = blinker5_v"
  by (simp add: new_grid_def neighbors_def shifts_eq roll_axis0_def roll_axis1_def roll_def
      arr_add_def scalar_add_def rule_def blinker5_def blinker5_v_def upt5)

lemma new_grid_blinker5_v: "new_grid blinker5_v = blinker5"
  by (simp add: new_grid_def neighbors_def shifts_eq roll_axis0_def roll_axis1_def roll_def
      arr_add_def scalar_add_def rule_def blinker5_def blinker5_v_def upt5)

lemma rect_blinker5: "rect 5 5 blinker5"
  by (simp add: rect_def blinker5_def)

lemma the_grid_ex_state: "the_grid ex_state = blinker5"
  by (simp add: the_grid_def ex_state_def)

lemma update_state_ex: "update_state id ex_state = Inr ex_next"
proof -
  have r: "rect 5 5 (the_grid ex_state)" by (simp add: the_grid_ex_state rect_blinker5)
  show ?thesis
    unfolding update_state_eq[OF r] the_grid_ex_state new_grid_blinker5
    by (simp add: ex_state_def ex_next_def np_sum_def blinker5_v_def plot_of_def
        occupancy_of_def growth_of_def true_divide_def)
qed

lemma clear_grid_ex: "clear_grid id ex_state = Inr ex_cleared"
  unfolding clear_grid_eq the_grid_ex_state
  by (simp add: ex_state_def ex_cleared_def plot_of_def occupancy_of_def growth_of_def
      true_divide_def full_def shape_def blinker5_def np_sum_def eval_nat_numeral)

lemma reachable_ex_state: "reachable fl ex_state"
  by (rule r_init[OF init_ex])

lemma reachable_ex_next: "reachable id ex_next"
  by (rule r_update[OF reachable_ex_state update_state_ex])

lemma rounding_id: "rounding id"
  by (simp add: rounding_def mono_def)

lemma is_grid_ex_state: "is_grid 5 5 (the_grid ex_state)"
  using wf_ex_state by (simp add: wf_def ex_state_def)

lemma click_ex_next: "mousePressEvent (45, 85) ex_next = Inr ex_mid"
  by (simp add: mousePressEvent_def cell_of_def ex_next_def ex_mid_def the_grid_def shape_def
      blinker5_v_def np_index_def Let_def)

lemma update_state_ex_mid: "update_state id ex_mid = Inr ex_later"
proof -
  have g: "the_grid ex_mid = [[0,0,0,0,0],[0,0,1,0,0],[0,0,0,0,0],[0,0,1,0,0],[0,0,0,0,0]]"
    by (simp add: the_grid_def ex_mid_def)
  have r: "rect 5 5 (the_grid ex_mid)" by (simp add: g rect_def)
  have n: "new_grid [[0,0,0,0,0],[0,0,1,0,0],[0,0,0,0,0],[0,0,1,0,0],[0,0,0,0,0]]
             = [[0,0,0,0,0],[0,0,0,0,0],[0,0,0,0,0],[0,0,0,0,0],[0,0,0,0,0]]"
    by (simp add: new_grid_def neighbors_def shifts_eq roll_axis0_def roll_axis1_def roll_def
        arr_add_def scalar_add_def rule_def upt5)
  show ?thesis
    unfolding update_state_eq[OF r] g n
    by (simp add: ex_mid_def ex_later_def np_sum_def plot_of_def
        occupancy_of_def growth_of_def true_divide_def)
qed

lemma reachable_ex_later: "reachable id ex_later"
  by (rule r_update[OF r_click[OF reachable_ex_next click_ex_next] update_state_ex_mid])

lemma init_ex_empty: "init ex_rand 0 10 = Inr ex_empty"
  by (simp add: init_def random_grid_def ex_empty_def)

lemma update_state_ex_empty: "update_state id ex_empty = Inr ex_empty_next"
proof -
  have g: "the_grid ex_empty = []" by (simp add: the_grid_def ex_empty_def)
  have r: "rect 0 0 (the_grid ex_empty)" by (simp add: g rect_def)
  have n: "new_grid [] = []" by (simp add: new_grid_def)
  show ?thesis
    unfolding update_state_eq[OF r] g n
    by (simp add: ex_empty_def ex_empty_next_def np_sum_def plot_of_def
        occupancy_of_def growth_of_def true_divide_def)
qed

section \<open>Lemmas about the blinker\<close>

lemma blinker5_eq: "blinker_h 5 2 2 = blinker5"
  by (simp add: blinker_h_def pattern_def near_def blinker5_def upt5)

lemma rect_pattern: "rect n n (pattern n R C)"
  by (simp add: rect_def pattern_def)

lemma nth_pattern: "y < n \<Longrightarrow> x < n \<Longrightarrow> pattern n R C ! y ! x = (if R y \<and> C x then 1 else 0)"
  by (simp add: pattern_def)

lemma sh_prev: "y < n \<Longrightarrow> nat ((int y - 1) mod int n) = (if y = 0 then n - 1 else y - 1)"
proof (cases "y = 0")
  case True
  assume "y < n"
  then have "(- 1) mod int n = int n - 1" by (simp add: zmod_minus1)
  then show ?thesis unfolding True by simp
next
  case False
  assume "y < n"
  with False have "0 \<le> int y - 1" "int y - 1 < int n" by linarith+
  then have "(int y - 1) mod int n = int y - 1" by (rule mod_pos_pos_trivial)
  then show ?thesis using False by simp
qed

lemma sh_next: "y < n \<Longrightarrow> nat ((int y + 1) mod int n) = (if y + 1 = n then 0 else y + 1)"
proof (cases "y + 1 = n")
  case True
  then have "int y + 1 = int n" by linarith
  then have "(int y + 1) mod int n = 0" by (simp only: mod_self)
  then show ?thesis using True by simp
next
  case False
  assume "y < n"
  with False have "0 \<le> int y + 1" "int y + 1 < int n" by linarith+
  then have "(int y + 1) mod int n = int y + 1" by (rule mod_pos_pos_trivial)
  then show ?thesis using False by simp
qed

lemma sh_same: "y < n \<Longrightarrow> nat (int y mod int n) = y"
  by simp

lemma pv_less: "y < n \<Longrightarrow> pv n y < n"
  by (auto simp: pv_def)

lemma nx_less: "y < n \<Longrightarrow> nx n y < n"
  by (auto simp: nx_def)

lemma neighbors_pattern:
  assumes "y < n" "x < n"
  shows "neighbors (pattern n R C) ! y ! x =
           b2i (R (nx n y) \<and> C (nx n x)) + b2i (R (nx n y) \<and> C x) + b2i (R (nx n y) \<and> C (pv n x))
         + b2i (R y \<and> C (nx n x)) + b2i (R y \<and> C (pv n x))
         + b2i (R (pv n y) \<and> C (nx n x)) + b2i (R (pv n y) \<and> C x) + b2i (R (pv n y) \<and> C (pv n x))"
proof -
  have p: "nat ((int y - 1) mod int n) = pv n y" "nat ((int x - 1) mod int n) = pv n x"
    and q: "nat ((int y + 1) mod int n) = nx n y" "nat ((int x + 1) mod int n) = nx n x"
    using assms by (simp_all only: sh_prev sh_next pv_def nx_def)
  have s: "nat (int y mod int n) = y" "nat (int x mod int n) = x"
    using assms by simp_all
  note lt = assms pv_less[OF assms(1)] pv_less[OF assms(2)] nx_less[OF assms(1)] nx_less[OF assms(2)]
  show ?thesis
    unfolding nth_neighbors[OF rect_pattern assms] shifts_eq
    using lt by (simp add: p q nth_pattern b2i_def del: of_nat_diff)
qed

lemma mod_next: "c < n \<Longrightarrow> (c + 1) mod n = nx n c"
  by (auto simp: nx_def)

lemma near_alt: "c < n \<Longrightarrow> x < n \<Longrightarrow> near n c x \<longleftrightarrow> x = c \<or> x = nx n c \<or> nx n x = c"
  unfolding near_def using mod_next[of c n] mod_next[of x n] by simp

lemma near_self: "near n c c"
  by (simp add: near_def)

lemma near_around:
  assumes "c < n"
  shows "near n c (pv n c)" "near n c (nx n c)"
  using assms by (auto simp: near_alt pv_less nx_less) (auto simp: pv_def nx_def)

lemma not_all_near:
  assumes "4 \<le> n" "c < n" "x < n" "x \<noteq> c"
  shows "\<not> (near n c (pv n x) \<and> near n c x \<and> near n c (nx n x))"
  using assms by (simp add: near_alt pv_less nx_less) (auto simp: pv_def nx_def split: if_splits)

lemma point_exclusive:
  assumes "3 \<le> n" "y < n"
  shows "\<not> (pv n y = c \<and> y = c)" "\<not> (nx n y = c \<and> y = c)" "\<not> (pv n y = c \<and> nx n y = c)"
  using assms by (auto simp: pv_def nx_def split: if_splits)

lemma point_near:
  assumes "c < n" "y < n"
  shows "(pv n y = c \<or> y = c \<or> nx n y = c) \<longleftrightarrow> near n c y"
  using assms by (simp add: near_alt) (auto simp: pv_def nx_def split: if_splits)

lemma rect_eqI:
  assumes "rect h w a" "rect h w b" "\<And>y x. y < h \<Longrightarrow> x < w \<Longrightarrow> a ! y ! x = b ! y ! x"
  shows "a = b"
proof (rule nth_equalityI)
  show "length a = length b" using assms(1,2) by (simp add: rect_def)
next
  fix y assume "y < length a"
  then have y: "y < h" using assms(1) by (simp add: rect_def)
  show "a ! y = b ! y"
    using rect_row[OF assms(1) y] rect_row[OF assms(2) y] assms(3)[OF y]
    by (intro nth_equalityI) simp_all
qed

lemma step_bools:
  assumes "\<not> (Bm \<and> B0)" "\<not> (Bp \<and> B0)" "\<not> (Bm \<and> Bp)"
    and "(Bm \<or> B0 \<or> Bp) = nr" and "(Am \<and> A0 \<and> Ap) = ctr"
  shows "rule (b2i (B0 \<and> A0))
           (b2i (Bp \<and> Ap) + b2i (Bp \<and> A0) + b2i (Bp \<and> Am) + b2i (B0 \<and> Ap) + b2i (B0 \<and> Am)
            + b2i (Bm \<and> Ap) + b2i (Bm \<and> A0) + b2i (Bm \<and> Am)) = b2i (nr \<and> ctr)"
  using assms by (cases Bm; cases B0; cases Bp; cases Am; cases A0; cases Ap)
                 (simp_all add: rule_def b2i_def)

lemma step_bools_t:
  assumes "\<not> (Bm \<and> B0)" "\<not> (Bp \<and> B0)" "\<not> (Bm \<and> Bp)"
    and "(Bm \<or> B0 \<or> Bp) = nr" and "(Am \<and> A0 \<and> Ap) = ctr"
  shows "rule (b2i (A0 \<and> B0))
           (b2i (Ap \<and> Bp) + b2i (Ap \<and> B0) + b2i (Ap \<and> Bm) + b2i (A0 \<and> Bp) + b2i (A0 \<and> Bm)
            + b2i (Am \<and> Bp) + b2i (Am \<and> B0) + b2i (Am \<and> Bm)) = b2i (ctr \<and> nr)"
  using assms by (cases Bm; cases B0; cases Bp; cases Am; cases A0; cases Ap)
                 (simp_all add: rule_def b2i_def)

lemma all_near_iff:
  assumes "4 \<le> n" "c < n" "x < n"
  shows "(near n c (pv n x) \<and> near n c x \<and> near n c (nx n x)) = (x = c)"
  using not_all_near[OF assms] near_around[OF assms(2)] near_self[of n c] by blast

lemma new_grid_blinker_h:
  assumes "4 \<le> n" "cx < n" "cy < n"
  shows "new_grid (blinker_h n cx cy) = blinker_v n cx cy"
proof (rule rect_eqI[of n n])
  show "rect n n (new_grid (blinker_h n cx cy))"
    unfolding blinker_h_def by (rule rect_new_grid[OF rect_pattern])
  show "rect n n (blinker_v n cx cy)"
    unfolding blinker_v_def by (rule rect_pattern)
next
  fix y x assume yx: "y < n" "x < n"
  have n3: "3 \<le> n" using assms(1) by simp
  have "new_grid (blinker_h n cx cy) ! y ! x = b2i (near n cy y \<and> x = cx)"
    unfolding blinker_h_def nth_new_grid[OF rect_pattern yx] neighbors_pattern[OF yx]
      nth_pattern[OF yx] b2i_def[symmetric]
    by (rule step_bools[OF point_exclusive[OF n3 yx(1)] point_near[OF assms(3) yx(1)]
          all_near_iff[OF assms(1,2) yx(2)]])
  also have "\<dots> = blinker_v n cx cy ! y ! x"
    unfolding blinker_v_def nth_pattern[OF yx] b2i_def ..
  finally show "new_grid (blinker_h n cx cy) ! y ! x = blinker_v n cx cy ! y ! x" .
qed

lemma new_grid_blinker_v:
  assumes "4 \<le> n" "cx < n" "cy < n"
  shows "new_grid (blinker_v n cx cy) = blinker_h n cx cy"
proof (rule rect_eqI[of n n])
  show "rect n n (new_grid (blinker_v n cx cy))"
    unfolding blinker_v_def by (rule rect_new_grid[OF rect_pattern])
  show "rect n n (blinker_h n cx cy)"
    unfolding blinker_h_def by (rule rect_pattern)
next
  fix y x assume yx: "y < n" "x < n"
  have n3: "3 \<le> n" using assms(1) by simp
  have "new_grid (blinker_v n cx cy) ! y ! x = b2i (y = cy \<and> near n cx x)"
    unfolding blinker_v_def nth_new_grid[OF rect_pattern yx] neighbors_pattern[OF yx]
      nth_pattern[OF yx] b2i_def[symmetric]
    by (rule step_bools_t[OF point_exclusive[OF n3 yx(2)] point_near[OF assms(2) yx(2)]
          all_near_iff[OF assms(1,3) yx(1)]])
  also have "\<dots> = blinker_h n cx cy ! y ! x"
    unfolding blinker_h_def nth_pattern[OF yx] b2i_def ..
  finally show "new_grid (blinker_v n cx cy) ! y ! x = blinker_h n cx cy ! y ! x" .
qed

lemma blinker_v_neq_h:
  assumes "3 \<le> n" "cx < n" "cy < n"
  shows "blinker_v n cx cy \<noteq> blinker_h n cx cy"
proof
  assume eq: "blinker_v n cx cy = blinker_h n cx cy"
  have p: "pv n cy < n" using pv_less[OF assms(3)] .
  have "blinker_v n cx cy ! pv n cy ! cx = 1"
    unfolding blinker_v_def nth_pattern[OF p assms(2)] using near_around(1)[OF assms(3)] by simp
  moreover have "blinker_h n cx cy ! pv n cy ! cx = 0"
    unfolding blinker_h_def nth_pattern[OF p assms(2)]
    using point_exclusive(1)[OF assms(1,3), of cy] by simp
  ultimately show False using eq by simp
qed

lemma update_state_new_grid:
  assumes "rect h w (the_grid s)"
  shows "\<exists>s'. update_state fl s = Inr s' \<and> the_grid s' = new_grid (the_grid s)"
  unfolding update_state_eq[OF assms] by (simp add: the_grid_def)

section \<open>The generation step\<close>

text \<open>
  C1. For a grid of height \<open>h\<close> and width \<open>w\<close>, \<open>update_state\<close> returns normally
  and leaves a grid of the same dimensions in the array, in which the cell \<open>(x, y)\<close> is
  alive (1) exactly when it was alive and its neighbour count is 2 or 3, or it was dead
  (0) and its neighbour count is 3; the neighbour count is the one of the
  specification, the sum over the eight positions \<open>(x + dx, y + dy)\<close> taken modulo the
  width and the height.
\<close>

theorem update_state_rule:
  assumes "is_grid h w (the_grid s)"
  shows "\<exists>s'. update_state fl s = Inr s' \<and> is_grid h w (the_grid s')
           \<and> shape (the_grid s') = shape (the_grid s)
           \<and> (\<forall>x y. x < w \<and> y < h \<longrightarrow>
                (the_grid s' ! y ! x = 1) =
                  ((the_grid s ! y ! x = 1 \<and> (neighbor_count (the_grid s) x y = 2
                                              \<or> neighbor_count (the_grid s) x y = 3))
                   \<or> (the_grid s ! y ! x = 0 \<and> neighbor_count (the_grid s) x y = 3)))"
proof -
  let ?g = "the_grid s"
  have r: "rect h w ?g" using is_grid_rect[OF assms] .
  let ?s' = "s\<lparr> heap := (heap s)(grid s := new_grid ?g),
                 generation := generation s + 1,
                 live_history := live_history s @ [np_sum (new_grid ?g)],
                 ax := Some (plot_of fl (grid_size s) (live_history s @ [np_sum (new_grid ?g)])) \<rparr>"
  have g': "the_grid ?s' = new_grid ?g" by (simp add: the_grid_def)
  have 1: "update_state fl s = Inr ?s'" using update_state_eq[OF r] .
  have 2: "is_grid h w (new_grid ?g)" using is_grid_new_grid[OF r] .
  have 3: "shape (new_grid ?g) = shape ?g"
  proof (cases "h = 0")
    case True
    with r 2 show ?thesis by (simp add: is_grid_def rect_def)
  next
    case False
    then show ?thesis using is_grid_shape[OF 2] rect_shape[OF r] by simp
  qed
  have 4: "(new_grid ?g ! y ! x = 1) =
             ((?g ! y ! x = 1 \<and> (neighbor_count ?g x y = 2 \<or> neighbor_count ?g x y = 3))
              \<or> (?g ! y ! x = 0 \<and> neighbor_count ?g x y = 3))"
    if "x < w" "y < h" for x y
    unfolding nth_new_grid[OF r that(2,1)] neighbors_eq_neighbor_count[OF r that(2,1)]
    by (simp add: rule_def)
  show ?thesis
  proof (intro exI[of _ ?s'] conjI allI impI)
    show "update_state fl s = Inr ?s'" by (rule 1)
    show "is_grid h w (the_grid ?s')" unfolding g' by (rule 2)
    show "shape (the_grid ?s') = shape ?g" unfolding g' by (rule 3)
    show "(the_grid ?s' ! y ! x = 1) =
             ((?g ! y ! x = 1 \<and> (neighbor_count ?g x y = 2 \<or> neighbor_count ?g x y = 3))
              \<or> (?g ! y ! x = 0 \<and> neighbor_count ?g x y = 3))"
      if "x < w \<and> y < h" for x y
      unfolding g' using 4[of x y] that by blast
  qed
qed

theorem update_state_rule_witness:
  "is_grid 5 5 (the_grid ex_state) \<and> update_state id ex_state = Inr ex_next
   \<and> the_grid ex_state ! 1 ! 2 = 0 \<and> neighbor_count (the_grid ex_state) 2 1 = 3
   \<and> the_grid ex_next ! 1 ! 2 = 1"
proof -
  have c: "the_grid ex_state ! 1 ! 2 = 0"
    by (simp add: the_grid_ex_state blinker5_def)
  have n: "neighbor_count (the_grid ex_state) 2 1 = 3"
    by (simp add: the_grid_ex_state neighbor_count_def height_def width_def shape_def
        blinker5_def)
  from update_state_rule[OF is_grid_ex_state, of id] obtain s' where
    s': "update_state id ex_state = Inr s'"
    and r: "\<forall>x y. x < 5 \<and> y < 5 \<longrightarrow>
                (the_grid s' ! y ! x = 1) =
                  ((the_grid ex_state ! y ! x = 1 \<and> (neighbor_count (the_grid ex_state) x y = 2
                                              \<or> neighbor_count (the_grid ex_state) x y = 3))
                   \<or> (the_grid ex_state ! y ! x = 0 \<and> neighbor_count (the_grid ex_state) x y = 3))"
    by blast
  from s' have "s' = ex_next" by (simp add: update_state_ex)
  with r[rule_format, of 2 1] c n have "the_grid ex_next ! 1 ! 2 = 1" by simp
  with is_grid_ex_state update_state_ex c n show ?thesis by simp
qed

text \<open>
  C2. The array after \<open>update_state\<close> is a function of the array before it and of
  nothing else: two states whose arrays are equal, whatever their counters, histories
  and rounding, are left with equal arrays, namely \<open>new_grid\<close> of the old array; every
  cell of it is the rule applied to the old cell and the neighbour count taken in the
  old array.
\<close>

theorem update_state_deterministic:
  assumes "rect h w (the_grid s1)" and "the_grid s2 = the_grid s1"
  shows "\<exists>t1 t2. update_state fl1 s1 = Inr t1 \<and> update_state fl2 s2 = Inr t2
           \<and> the_grid t1 = the_grid t2 \<and> the_grid t1 = new_grid (the_grid s1)
           \<and> (\<forall>x y. x < w \<and> y < h \<longrightarrow>
                the_grid t1 ! y ! x
                  = rule (the_grid s1 ! y ! x) (neighbor_count (the_grid s1) x y))"
proof -
  have r2: "rect h w (the_grid s2)" using assms by simp
  have "new_grid (the_grid s1) ! y ! x
          = rule (the_grid s1 ! y ! x) (neighbor_count (the_grid s1) x y)"
    if "x < w" "y < h" for x y
    unfolding nth_new_grid[OF assms(1) that(2,1)]
      neighbors_eq_neighbor_count[OF assms(1) that(2,1)] ..
  then show ?thesis
    unfolding update_state_eq[OF assms(1)] update_state_eq[OF r2] assms(2)
    by (simp add: the_grid_def)
qed


theorem update_state_deterministic_witness:
  "rect 5 5 (the_grid ex_state) \<and> the_grid ex_other = the_grid ex_state
   \<and> (\<exists>t1 t2. update_state id ex_state = Inr t1 \<and> update_state id ex_other = Inr t2
         \<and> the_grid t1 = the_grid t2 \<and> the_grid t1 = blinker5_v)"
proof -
  have r: "rect 5 5 (the_grid ex_state)" by (simp add: the_grid_ex_state rect_blinker5)
  have e: "the_grid ex_other = the_grid ex_state" by (simp add: ex_other_def the_grid_def)
  from update_state_deterministic[OF r e, of id id] r e show ?thesis
    by (auto simp: the_grid_ex_state new_grid_blinker5)
qed

text \<open>
  C5. On a square toroidal grid of side at least 4, with a horizontal blinker (three
  horizontally adjacent live cells, on the ring of columns, all other cells dead) in
  the array, \<open>update_state\<close> returns normally twice: the first call leaves the
  vertical blinker on the same centre, which differs from the start, and the second
  call gives back exactly the original array.
\<close>

theorem blinker_period_two:
  assumes "4 \<le> n" "cx < n" "cy < n" and "the_grid s = blinker_h n cx cy"
  shows "\<exists>s1 s2. update_state fl s = Inr s1 \<and> update_state fl s1 = Inr s2
           \<and> the_grid s1 = blinker_v n cx cy \<and> the_grid s1 \<noteq> the_grid s
           \<and> the_grid s2 = the_grid s"
proof -
  have r: "rect n n (the_grid s)" unfolding assms(4) blinker_h_def by (rule rect_pattern)
  from update_state_new_grid[OF r, of fl] obtain s1 where
    1: "update_state fl s = Inr s1" and "the_grid s1 = new_grid (the_grid s)" by blast
  then have g1: "the_grid s1 = blinker_v n cx cy"
    unfolding assms(4) new_grid_blinker_h[OF assms(1-3)] by simp
  have r1: "rect n n (the_grid s1)" unfolding g1 blinker_v_def by (rule rect_pattern)
  from update_state_new_grid[OF r1, of fl] obtain s2 where
    2: "update_state fl s1 = Inr s2" and "the_grid s2 = new_grid (the_grid s1)" by blast
  then have g2: "the_grid s2 = the_grid s"
    unfolding g1 new_grid_blinker_v[OF assms(1-3)] assms(4) by simp
  have n3: "3 \<le> n" using assms(1) by simp
  have ne: "the_grid s1 \<noteq> the_grid s"
    unfolding g1 assms(4) by (rule blinker_v_neq_h[OF n3 assms(2,3)])
  from 1 2 g1 ne g2 show ?thesis by blast
qed

theorem blinker_period_two_witness:
  "(4::nat) \<le> 5 \<and> (2::nat) < 5 \<and> the_grid ex_state = blinker_h 5 2 2
   \<and> (\<exists>s1 s2. update_state id ex_state = Inr s1 \<and> update_state id s1 = Inr s2
           \<and> the_grid s1 = blinker5_v \<and> the_grid s1 \<noteq> blinker5 \<and> the_grid s2 = blinker5)"
proof -
  have g: "the_grid ex_state = blinker_h 5 2 2" by (simp add: the_grid_ex_state blinker5_eq)
  have v: "blinker_v 5 2 2 = blinker5_v"
    by (simp add: blinker_v_def pattern_def near_def blinker5_v_def upt5)
  have "(4::nat) \<le> 5" "(2::nat) < 5" by simp_all
  from blinker_period_two[OF this(1) this(2) this(2) g, of id] g show ?thesis
    by (simp add: v the_grid_ex_state)
qed

section \<open>Clicks on the grid\<close>

text \<open>
  C7, as the code has it. \<open>mousePressEvent\<close> is the only operation that takes
  coordinates. When the cell it computes from the click lies outside
  \<open>[0, grid_size)\<close> in either coordinate, the guard skips the toggle: the call returns
  normally and the whole state is left as it was. No error is raised.
\<close>

theorem mousePressEvent_outside_ignored:
  "cell_of s ev = Inr (x, y) \<Longrightarrow> \<not> (0 \<le> x \<and> x < grid_size s \<and> 0 \<le> y \<and> y < grid_size s)
     \<Longrightarrow> mousePressEvent ev s = Inr s"
  by (auto simp: mousePressEvent_def)

theorem mousePressEvent_outside_ignored_witness:
  "cell_of ex_state (0, 0) = Inr (-2, -6) \<and> mousePressEvent (0, 0) ex_state = Inr ex_state"
proof -
  have c: "cell_of ex_state (0, 0) = Inr (-2, -6)"
    by (simp add: cell_of_def ex_state_def)
  have "\<not> (0 \<le> (-2::int) \<and> -2 < grid_size ex_state \<and> 0 \<le> (-6::int) \<and> -6 < grid_size ex_state)"
    by simp
  from mousePressEvent_outside_ignored[OF c this] c show ?thesis by simp
qed

text \<open>
  The claim as stated asks for a failure. A click at pixel \<open>(75, 65)\<close> on the sample
  state maps to the cell \<open>(5, 0)\<close>, whose column is outside \<open>[0, 5)\<close>, and the call
  returns the unchanged state instead of an error.
\<close>

theorem click_outside_raises_nothing:
  "cell_of ex_state (75, 65) = Inr (5, 0) \<and> \<not> 5 < grid_size ex_state
     \<and> mousePressEvent (75, 65) ex_state = Inr ex_state"
  by (simp add: mousePressEvent_def cell_of_def ex_state_def)

text \<open>
  C8. In a well-formed state, a click that maps to a cell \<open>(x, y)\<close> inside the grid
  replaces that cell's value \<open>v\<close> by \<open>1 - v\<close> and touches nothing else; the same click
  again gives back exactly the state before the first one.
\<close>

theorem toggle_twice_restores:
  assumes "wf s" and "cell_of s ev = Inr (x, y)"
    and "0 \<le> x" "x < grid_size s" "0 \<le> y" "y < grid_size s"
  shows "\<exists>s1. mousePressEvent ev s = Inr s1 \<and> mousePressEvent ev s1 = Inr s
     \<and> s1 = s\<lparr> heap := (heap s)(grid s :=
               (the_grid s)[nat y := (the_grid s ! nat y)[nat x := 1 - the_grid s ! nat y ! nat x]]) \<rparr>"
proof -
  let ?n = "nat (grid_size s)"
  let ?g = "the_grid s"
  let ?g1 = "?g[nat y := (?g ! nat y)[nat x := 1 - ?g ! nat y ! nat x]]"
  let ?s1 = "s\<lparr> heap := (heap s)(grid s := ?g1) \<rparr>"
  from assms have g: "is_grid ?n ?n ?g" and n: "0 < ?n" by (auto simp: wf_def)
  have sh: "shape ?g = (?n, ?n)" using is_grid_shape[OF g n] .
  have ry: "nat y < length ?g" using g assms by (simp add: is_grid_def)
  have cx: "nat x < length (?g ! nat y)"
    using rect_row[OF is_grid_rect[OF g], of "nat y"] assms by simp
  have iy: "np_index ?n y = Inr (nat y)" and ix: "np_index ?n x = Inr (nat x)"
    using assms by (auto simp: np_index_def)
  have 1: "mousePressEvent ev s = Inr ?s1"
    using assms(2-) sh iy ix by (simp add: mousePressEvent_def Let_def)
  have sh1: "shape ?g1 = (?n, ?n)" using sh ry cx
    by (cases ?g; cases "nat y") (auto simp: shape_def)
  have g1: "the_grid ?s1 = ?g1" by (simp add: the_grid_def)
  have c1: "cell_of ?s1 ev = Inr (x, y)"
    using assms(2) by (auto simp: cell_of_def split: if_splits)
  have "mousePressEvent ev ?s1 =
          Inr (?s1\<lparr> heap := (heap ?s1)(grid ?s1 :=
                 ?g1[nat y := (?g1 ! nat y)[nat x := 1 - ?g1 ! nat y ! nat x]]) \<rparr>)"
    using assms(3-) c1 sh1 iy ix g1 by (simp add: mousePressEvent_def Let_def)
  also have "?g1[nat y := (?g1 ! nat y)[nat x := 1 - ?g1 ! nat y ! nat x]] = ?g"
    using toggle_back[OF ry cx] .
  also have "?s1\<lparr> heap := (heap ?s1)(grid ?s1 := ?g) \<rparr> = s"
    by (simp add: the_grid_def)
  finally have 2: "mousePressEvent ev ?s1 = Inr s" .
  from 1 2 show ?thesis by blast
qed

theorem toggle_twice_restores_witness:
  "wf ex_state \<and> cell_of ex_state (45, 85) = Inr (2, 2) \<and>
   (\<exists>s1. mousePressEvent (45, 85) ex_state = Inr s1 \<and> mousePressEvent (45, 85) s1 = Inr ex_state
      \<and> the_grid s1 = [[0,0,0,0,0],[0,0,0,0,0],[0,1,0,1,0],[0,0,0,0,0],[0,0,0,0,0]])"
proof -
  have c: "cell_of ex_state (45, 85) = Inr (2, 2)"
    by (simp add: cell_of_def ex_state_def)
  have b: "(0::int) \<le> 2" "2 < grid_size ex_state"
    by (simp_all add: ex_state_def)
  from toggle_twice_restores[OF wf_ex_state c b b]
  obtain s1 where s1: "mousePressEvent (45, 85) ex_state = Inr s1"
      "mousePressEvent (45, 85) s1 = Inr ex_state"
      "s1 = ex_state\<lparr> heap := (heap ex_state)(grid ex_state :=
               (the_grid ex_state)[nat 2 := (the_grid ex_state ! nat 2)
                  [nat 2 := 1 - the_grid ex_state ! nat 2 ! nat 2]]) \<rparr>"
    by blast
  have "the_grid s1 = [[0,0,0,0,0],[0,0,0,0,0],[0,1,0,1,0],[0,0,0,0,0],[0,0,0,0,0]]"
    unfolding s1(3) by (simp add: the_grid_def ex_state_def blinker5_def)
  with s1 c wf_ex_state show ?thesis by blast
qed

section \<open>The recorded series\<close>

text \<open>
  C3, as the code has it. \<open>clear_grid\<close> sets every cell to 0, so the live count of the
  grid is 0; it empties \<open>live_history\<close> and sets the generation to 0 and then calls
  \<open>update_plot\<close>, which records the cleared grid as generation 1. After \<open>clear_grid\<close>
  the history and the growth series are \<open>[0]\<close>, and the occupancy series has one
  element.
\<close>

theorem clear_grid_result:
  "\<exists>s'. clear_grid fl s = Inr s' \<and> the_grid s' = full (shape (the_grid s)) 0
      \<and> np_sum (the_grid s') = 0 \<and> generation s' = 1 \<and> live_history s' = [0]
      \<and> (\<exists>p. ax s' = Some p \<and> generations p = [1] \<and> live p = [0] \<and> growth p = [0]
             \<and> length (occupancy p) = 1)"
  unfolding clear_grid_eq by (simp add: plot_of_def growth_of_def the_grid_def)

text \<open>
  The claim as stated asks for empty series after the reset. On the sample state,
  \<open>clear_grid\<close> leaves the history \<open>[0]\<close> and one point in each drawn series.
\<close>

theorem clear_grid_history_not_empty:
  "clear_grid id ex_state = Inr ex_cleared \<and> live_history ex_cleared = [0] \<and> live_history ex_cleared \<noteq> []
     \<and> ax ex_cleared = Some \<lparr> generations = [1], live = [0], occupancy = [Finite 0], growth = [0] \<rparr>"
  by (simp add: clear_grid_ex) (simp add: ex_cleared_def)

text \<open>
  C4. In every state of a run, the axes are either still empty, with an empty history,
  or they show series of the same length as \<open>live_history\<close>, which is then not empty:
  the growth series starts with 0 and its element \<open>i \<ge> 1\<close> is
  \<open>live_history[i] - live_history[i - 1]\<close>.
\<close>

theorem series_index_aligned:
  assumes "reachable fl s"
  shows "case ax s of
           None \<Rightarrow> live_history s = []
         | Some p \<Rightarrow> live p = live_history s
             \<and> length (occupancy p) = length (live_history s)
             \<and> length (growth p) = length (live_history s)
             \<and> live_history s \<noteq> [] \<and> growth p ! 0 = 0
             \<and> (\<forall>i. 1 \<le> i \<and> i < length (live_history s) \<longrightarrow>
                    growth p ! i = live_history s ! i - live_history s ! (i - 1))"
proof -
  from reachable_inv[OF assms] have ok: "series_ok fl s" by (simp add: inv_def)
  show ?thesis
  proof (cases "ax s")
    case None
    with ok show ?thesis by (simp add: series_ok_def)
  next
    case (Some p)
    with ok have ne: "live_history s \<noteq> []" and p: "p = plot_of fl (grid_size s) (live_history s)"
      by (simp_all add: series_ok_def)
    show ?thesis
      using ne by (simp add: Some p plot_of_def length_growth_of nth_growth_of)
  qed
qed

theorem series_index_aligned_witness:
  "reachable id ex_later
   \<and> (\<exists>p. ax ex_later = Some p \<and> live p = live_history ex_later \<and> live_history ex_later = [3, 0]
          \<and> length (occupancy p) = 2 \<and> length (growth p) = 2
          \<and> growth p ! 0 = 0 \<and> growth p ! 1 = 0 - 3)"
proof -
  have l: "live_history ex_later = [3, 0]" by (simp add: ex_later_def)
  from series_index_aligned[OF reachable_ex_later] obtain p where
    p: "ax ex_later = Some p" "live p = live_history ex_later"
       "length (occupancy p) = length (live_history ex_later)"
       "length (growth p) = length (live_history ex_later)" "growth p ! 0 = 0"
       "\<forall>i. 1 \<le> i \<and> i < length (live_history ex_later) \<longrightarrow>
              growth p ! i = live_history ex_later ! i - live_history ex_later ! (i - 1)"
    by (auto split: option.splits simp: l)
  from p(6)[rule_format, of 1] have "growth p ! 1 = 0 - 3" by (simp add: l)
  with p l reachable_ex_later show ?thesis by auto
qed



text \<open>
  C10, as the code has it. In every state of a run, each entry of \<open>live_history\<close>
  lies between 0 and \<open>width * height\<close>. The occupancy values lie between 0 and 100
  when \<open>grid_size\<close> is positive (and the rounding is monotone and exact on 0, 1 and
  100); the constructor does not refuse \<open>grid_size = 0\<close>, and then every occupancy
  value is \<open>0 / 0\<close>, which numpy gives as \<open>nan\<close>.
\<close>

theorem history_and_occupancy_bounds:
  assumes "reachable fl s"
  shows "(\<forall>v \<in> set (live_history s).
            0 \<le> v \<and> v \<le> int (width (the_grid s) * height (the_grid s)))
       \<and> (rounding fl \<and> 0 < grid_size s \<longrightarrow>
            (\<forall>p. ax s = Some p \<longrightarrow>
               (\<forall>q \<in> set (occupancy p). \<exists>r. q = Finite r \<and> 0 \<le> r \<and> r \<le> 100)))
       \<and> (rounding fl \<and> grid_size s = 0 \<longrightarrow>
            (\<forall>p. ax s = Some p \<longrightarrow> (\<forall>q \<in> set (occupancy p). q = NaN)))"
proof -
  from reachable_inv[OF assms] have wf: "wf s" and ok: "series_ok fl s"
    and hb: "history_bounded s" by (simp_all add: inv_def)
  have 1: "\<forall>v \<in> set (live_history s). 0 \<le> v \<and> v \<le> int (width (the_grid s) * height (the_grid s))"
    using hb unfolding area_eq[OF wf] history_bounded_def .
  have 2: "\<exists>r. q = Finite r \<and> 0 \<le> r \<and> r \<le> 100"
    if r: "rounding fl" and n: "0 < grid_size s" and p: "ax s = Some p" and q: "q \<in> set (occupancy p)"
    for p q
  proof -
    from ok p have "p = plot_of fl (grid_size s) (live_history s)" by (simp add: series_ok_def)
    with q obtain v where v: "v \<in> set (live_history s)"
      and qv: "q = fmul fl (true_divide fl v ((grid_size s)\<^sup>2)) 100"
      by (auto simp: plot_of_def occupancy_of_def)
    from hb v have "0 \<le> v" "v \<le> (grid_size s)\<^sup>2" by (simp_all add: history_bounded_def)
    moreover have "0 < (grid_size s)\<^sup>2" using n by simp
    ultimately show ?thesis using occupancy_in_range[OF r] qv by simp
  qed
  have 3: "q = NaN"
    if r: "rounding fl" and n: "grid_size s = 0" and p: "ax s = Some p" and q: "q \<in> set (occupancy p)"
    for p q
  proof -
    from ok p have "p = plot_of fl (grid_size s) (live_history s)" by (simp add: series_ok_def)
    with q obtain v where v: "v \<in> set (live_history s)"
      and qv: "q = fmul fl (true_divide fl v ((grid_size s)\<^sup>2)) 100"
      by (auto simp: plot_of_def occupancy_of_def)
    from hb v n have "v = 0" by (auto simp: history_bounded_def)
    moreover from r have "fl 0 = 0" by (simp add: rounding_def)
    ultimately show ?thesis using qv n by (simp add: true_divide_def)
  qed
  from 1 2 3 show ?thesis by blast
qed

text \<open>
  The claim as stated bounds every occupancy value. With \<open>grid_size = 0\<close> the
  constructor returns a state with an empty array, and the first \<open>update_state\<close>
  records the live count 0 and draws the occupancy \<open>nan\<close>, which is not between 0
  and 100.
\<close>

theorem occupancy_nan_on_empty_grid:
  "init ex_rand 0 10 = Inr ex_empty \<and> update_state id ex_empty = Inr ex_empty_next
   \<and> reachable id ex_empty_next \<and> live_history ex_empty_next = [0]
   \<and> ax ex_empty_next = Some \<lparr> generations = [1], live = [0], occupancy = [NaN], growth = [0] \<rparr>"
proof -
  have "reachable id ex_empty_next"
    by (rule r_update[OF r_init[OF init_ex_empty] update_state_ex_empty])
  then show ?thesis
    by (simp add: init_ex_empty update_state_ex_empty) (simp add: ex_empty_next_def)
qed

theorem history_and_occupancy_bounds_witness:
  "reachable id ex_next \<and> rounding id \<and> 0 < grid_size ex_next
   \<and> live_history ex_next = [3]
   \<and> (0::int) \<le> 3 \<and> 3 \<le> int (width (the_grid ex_next) * height (the_grid ex_next))
   \<and> ax ex_next = Some \<lparr> generations = [1], live = [3], occupancy = [Finite 12], growth = [0] \<rparr>
   \<and> (\<exists>r. Finite 12 = Finite r \<and> 0 \<le> r \<and> r \<le> 100)"
proof -
  have a: "ax ex_next = Some \<lparr> generations = [1], live = [3], occupancy = [Finite 12], growth = [0] \<rparr>"
    by (simp add: ex_next_def)
  have l: "live_history ex_next = [3]" by (simp add: ex_next_def)
  have n: "0 < grid_size ex_next" by (simp add: ex_next_def)
  from history_and_occupancy_bounds[OF reachable_ex_next] rounding_id n a l reachable_ex_next
  show ?thesis by simp
qed

section \<open>The array is written in place\<close>

text \<open>
  C9. In a well-formed state, \<open>update_state\<close>, \<open>clear_grid\<close> and \<open>randomize_grid\<close>
  return normally, and so does \<open>mousePressEvent\<close> when the cell size is not 0; after
  each of them \<open>self.grid\<close> and the widget refer to the same array as before, that
  array has the same shape, \<open>grid_size\<close> is unchanged and no other array was written.
\<close>

theorem operations_keep_array:
  assumes "wf s"
  shows "(\<exists>s'. update_state fl s = Inr s' \<and> same_array s s')
       \<and> (\<exists>s'. clear_grid fl s = Inr s' \<and> same_array s s')
       \<and> (\<exists>s'. randomize_grid fl rand s = Inr s' \<and> same_array s s')
       \<and> (\<forall>s'. mousePressEvent ev s = Inr s' \<longrightarrow> same_array s s')
       \<and> (cell_size s \<noteq> 0 \<longrightarrow> (\<exists>s'. mousePressEvent ev s = Inr s'))"
proof -
  let ?n = "nat (grid_size s)"
  let ?g = "the_grid s"
  from assms have g: "is_grid ?n ?n ?g" by (simp add: wf_def)
  have same_shape: "shape a = shape ?g" if "is_grid ?n ?n a" for a
  proof (cases "?n = 0")
    case True
    with that g show ?thesis by (simp add: is_grid_def)
  next
    case False
    then show ?thesis using is_grid_shape[OF that] is_grid_shape[OF g] by simp
  qed
  have 1: "\<exists>s'. update_state fl s = Inr s' \<and> same_array s s'"
    unfolding update_state_eq[OF wf_rect[OF assms]]
    using same_shape[OF is_grid_new_grid[OF wf_rect[OF assms]]]
    by (simp add: same_array_def the_grid_def)
  have 2: "\<exists>s'. clear_grid fl s = Inr s' \<and> same_array s s'"
    unfolding clear_grid_eq using shape_full[of ?g 0]
    by (simp add: same_array_def the_grid_def)
  have 3: "\<exists>s'. randomize_grid fl rand s = Inr s' \<and> same_array s s'"
  proof -
    from randomize_grid_eq[OF assms, of rand fl] obtain r where
      r: "random_grid rand (grid_size s) = Inr r"
      and eq: "randomize_grid fl rand s =
         Inr (s\<lparr> heap := (heap s)(grid s := r), generation := 1, live_history := [np_sum r],
                 ax := Some (plot_of fl (grid_size s) [np_sum r]) \<rparr>)"
      by blast
    show ?thesis unfolding eq using same_shape[OF random_grid_is_grid[OF r]]
      by (simp add: same_array_def the_grid_def)
  qed
  have 4: "same_array s s'" if "mousePressEvent ev s = Inr s'" for s'
    using mousePressEvent_cases[OF that] shape_toggle[of ?g]
    by (auto simp: same_array_def the_grid_def)
  have 5: "\<exists>s'. mousePressEvent ev s = Inr s'" if c: "cell_size s \<noteq> 0"
  proof -
    from c obtain x y where xy: "cell_of s ev = Inr (x, y)" by (simp add: cell_of_def)
    show ?thesis
    proof (cases "0 \<le> x \<and> x < grid_size s \<and> 0 \<le> y \<and> y < grid_size s")
      case True
      then have "0 < ?n" by simp
      from is_grid_shape[OF g this] True xy show ?thesis
        by (simp add: mousePressEvent_def Let_def np_index_def)
    next
      case False
      with xy show ?thesis by (auto simp: mousePressEvent_def)
    qed
  qed
  from 1 2 3 4 5 show ?thesis by blast
qed

theorem operations_keep_array_witness:
  "wf ex_state \<and> (\<exists>s'. update_state id ex_state = Inr s' \<and> same_array ex_state s')
       \<and> (\<exists>s'. clear_grid id ex_state = Inr s' \<and> same_array ex_state s')
       \<and> (\<exists>s'. randomize_grid id ex_rand ex_state = Inr s' \<and> same_array ex_state s')
       \<and> (\<exists>s'. mousePressEvent (45, 85) ex_state = Inr s' \<and> same_array ex_state s')"
proof -
  have "cell_size ex_state \<noteq> 0" by (simp add: ex_state_def)
  with operations_keep_array[OF wf_ex_state, of id ex_rand "(45, 85)"] wf_ex_state
  show ?thesis by blast
qed

end
